theory Spec2Isabelle
  imports Main "HOL-Library.AList"
begin

section \<open>Values, issues and validators\<close>

text \<open>
  The validators of \<^verbatim>\<open>lib/util/schema-utils/index.ts\<close> take untyped JavaScript data.
  The data the tolerant validators walk is tree shaped; an object is the list of its own
  enumerable entries in the order \<^verbatim>\<open>Object.entries\<close> lists them. Numbers are kept as
  integers: no validator below computes with them.
\<close>

datatype jsval =
    JUndefined
  | JNull
  | JBool bool
  | JNum int
  | JStr string
  | JArr "jsval list"
  | JObj "(string \<times> jsval) list"

text \<open>A segment of an issue path: a property name or an array index.\<close>

datatype path_seg = KeySeg string | IndexSeg nat

datatype issue_code = invalid_type | custom | other_code string

record ZodIssue =
  path :: "path_seg list"
  code :: issue_code
  message :: string
  fatal :: bool

text \<open>The two shapes \<^verbatim>\<open>safeParse\<close> returns: \<^verbatim>\<open>{success: true, data}\<close> and
  \<^verbatim>\<open>{success: false, error}\<close>, the error holding its issue list.\<close>

datatype 'a parse_result = Success 'a | Failure "ZodIssue list"

text \<open>\<^verbatim>\<open>interface ErrorContext<T> { error: z.ZodError; input: T }\<close>\<close>

record 't ErrorContext =
  error :: "ZodIssue list"
  input :: 't

text \<open>
  \<^verbatim>\<open>interface LooseOpts<T> { onError?: (err: ErrorContext<T>) => void }\<close>.
  The callback returns nothing and is called for its effect, so it is a transformer of
  the caller's state \<open>'st\<close>; a validator built with options threads that state.
\<close>

record ('t, 'st) LooseOpts =
  onError :: "('t ErrorContext \<Rightarrow> 'st \<Rightarrow> 'st) option"

definition no_opts :: "('t, 'st) LooseOpts" where
  "no_opts = \<lparr>onError = None\<rparr>"

text \<open>
  The message zod puts on an issue of its own comes from its error map, which is library
  code: it is a parameter here, from the expected type name and the received value to
  the message text.
\<close>

type_synonym error_map = "string \<Rightarrow> jsval \<Rightarrow> string"

text \<open>\<^verbatim>\<open>issue.path.unshift(seg)\<close>\<close>

definition unshift :: "path_seg \<Rightarrow> ZodIssue \<Rightarrow> ZodIssue" where
  "unshift seg issue = issue\<lparr>path := seg # path issue\<rparr>"

text \<open>\<^verbatim>\<open>z.any()\<close>: accepts every value and returns it.\<close>

definition z_any :: "jsval \<Rightarrow> jsval parse_result" where
  "z_any v = Success v"

text \<open>
  Modelled from the spec: \<^verbatim>\<open>z.array(z.any())\<close> is code of the zod library, absent from
  the sources. Section 4.2: the input must structurally be a sequence; a non-sequence
  input is a hard failure with one issue, \<open>invalid_type\<close>, at the root path.
\<close>

definition z_array_any :: "error_map \<Rightarrow> jsval \<Rightarrow> jsval list parse_result" where
  "z_array_any emap v =
     (case v of
        JArr xs \<Rightarrow> Success xs
      | _ \<Rightarrow> Failure [\<lparr>path = [], code = invalid_type, message = emap ''array'' v, fatal = False\<rparr>])"

section \<open>LooseArray\<close>

text \<open>
  The loop of the path without a callback (lines 43 to 52):
  \<^verbatim>\<open>for (const x of input) { const parsed = Elem.safeParse(x);
      if (parsed.success) { output.push(parsed.data); } }\<close>
\<close>

fun LooseArray_fast :: "(jsval \<Rightarrow> 'o parse_result) \<Rightarrow> jsval list \<Rightarrow> 'o list \<Rightarrow> 'o list" where
  "LooseArray_fast Elem [] out = out"
| "LooseArray_fast Elem (x # rest) out =
     (case Elem x of
        Success data \<Rightarrow> LooseArray_fast Elem rest (out @ [data])
      | Failure errs \<Rightarrow> LooseArray_fast Elem rest out)"

text \<open>
  The loop of the path with a callback (lines 59 to 72), by index, with the output array and
  the issue list as accumulators.
\<close>

function LooseArray_loop ::
  "(jsval \<Rightarrow> 'o parse_result) \<Rightarrow> jsval list \<Rightarrow> nat \<Rightarrow> 'o list \<Rightarrow> ZodIssue list
     \<Rightarrow> 'o list \<times> ZodIssue list" where
  "LooseArray_loop Elem inp idx out issues =
     (if idx < length inp then
        (case Elem (inp ! idx) of
           Success data \<Rightarrow> LooseArray_loop Elem inp (idx + 1) (out @ [data]) issues
         | Failure errs \<Rightarrow>
             LooseArray_loop Elem inp (idx + 1) out (issues @ map (unshift (IndexSeg idx)) errs))
      else (out, issues))"
  by pat_completeness auto
termination
  by (relation "measure (\<lambda>(Elem, inp, idx, out, issues). length inp - idx)") auto

declare LooseArray_loop.simps [simp del]

text \<open>
  \<^verbatim>\<open>LooseArray(Elem, { onError } = {})\<close>: without a callback the first transform, with
  one the second, which calls it once after the loop when issues were collected.
  The result is paired with the caller's state after the call.
\<close>

definition LooseArray ::
  "error_map \<Rightarrow> (jsval \<Rightarrow> 'o parse_result) \<Rightarrow> (jsval list, 'st) LooseOpts
     \<Rightarrow> jsval \<Rightarrow> 'st \<Rightarrow> 'o list parse_result \<times> 'st" where
  "LooseArray emap Elem opts v st =
     (case onError opts of
        None \<Rightarrow>
          (case z_array_any emap v of
             Failure e \<Rightarrow> (Failure e, st)
           | Success inp \<Rightarrow> (Success (LooseArray_fast Elem inp []), st))
      | Some cb \<Rightarrow>
          (case z_array_any emap v of
             Failure e \<Rightarrow> (Failure e, st)
           | Success inp \<Rightarrow>
               (case LooseArray_loop Elem inp 0 [] [] of
                  (out, issues) \<Rightarrow>
                    (Success out,
                     if issues \<noteq> [] then cb \<lparr>error = issues, input = inp\<rparr> st else st))))"

text \<open>What the loops are compared with below: the outputs of the elements that validate,
  in order, and the issues of those that do not, each under its element's index.\<close>

fun outputs_of :: "(jsval \<Rightarrow> 'o parse_result) \<Rightarrow> jsval list \<Rightarrow> 'o list" where
  "outputs_of Elem [] = []"
| "outputs_of Elem (x # xs) =
     (case Elem x of Success d \<Rightarrow> d # outputs_of Elem xs | Failure e \<Rightarrow> outputs_of Elem xs)"

definition dropped_issues :: "path_seg \<Rightarrow> (jsval \<Rightarrow> 'o parse_result) \<Rightarrow> jsval \<Rightarrow> ZodIssue list" where
  "dropped_issues seg Elem x =
     (case Elem x of Success d \<Rightarrow> [] | Failure e \<Rightarrow> map (unshift seg) e)"

definition issues_from :: "(jsval \<Rightarrow> 'o parse_result) \<Rightarrow> nat \<Rightarrow> jsval list \<Rightarrow> ZodIssue list" where
  "issues_from Elem i xs =
     concat (map (\<lambda>(idx, x). dropped_issues (IndexSeg idx) Elem x) (enumerate i xs))"

definition is_success :: "'a parse_result \<Rightarrow> bool" where
  "is_success r = (case r of Success d \<Rightarrow> True | Failure e \<Rightarrow> False)"

section \<open>LooseRecord\<close>

type_synonym schema = "jsval \<Rightarrow> jsval parse_result"

type_synonym entries = "(string \<times> jsval) list"

text \<open>
  Modelled from the spec: \<^verbatim>\<open>z.record(z.any())\<close> is code of the zod library, absent from
  the sources. Section 4.3 generalises section 4.2 to key-value mappings: the input must
  structurally be a mapping, anything else is one \<open>invalid_type\<close> issue at the root path.
\<close>

definition z_record_any :: "error_map \<Rightarrow> jsval \<Rightarrow> entries parse_result" where
  "z_record_any emap v =
     (case v of
        JObj kvs \<Rightarrow> Success kvs
      | _ \<Rightarrow> Failure [\<lparr>path = [], code = invalid_type, message = emap ''object'' v, fatal = False\<rparr>])"

text \<open>
  Modelled from the spec: \<^verbatim>\<open>z.string()\<close> is code of the zod library, absent from the
  sources. Section 4.4: the input must be textual.
\<close>

definition z_string :: "error_map \<Rightarrow> jsval \<Rightarrow> string parse_result" where
  "z_string emap v =
     (case v of
        JStr s \<Rightarrow> Success s
      | _ \<Rightarrow> Failure [\<lparr>path = [], code = invalid_type, message = emap ''string'' v, fatal = False\<rparr>])"

text \<open>\<^verbatim>\<open>z.string()\<close> in the place of a key schema, its output again a value.\<close>

definition z_string_key :: "error_map \<Rightarrow> schema" where
  "z_string_key emap v =
     (case z_string emap v of Success s \<Rightarrow> Success (JStr s) | Failure e \<Rightarrow> Failure e)"

text \<open>
  \<^verbatim>\<open>output[parsedKey.data] = parsedValue.data\<close> on the object that started as \<^verbatim>\<open>{}\<close>.
  A property key that is not a string is turned into one by the runtime (\<open>coerce\<close>, a
  parameter). The write replaces the value of a property the object has and adds the
  property otherwise, but for the name \<^verbatim>\<open>__proto__\<close>: there the write runs the accessor
  of \<^verbatim>\<open>Object.prototype\<close>, which does nothing for a primitive value and replaces the
  prototype for an object, and the object gets no property of its own. The entries are
  the object's own properties; its prototype is not part of them. The numeric ordering
  of index-like names is outside the model: the properties below look entries up by name.
\<close>

definition toPropertyKey :: "(jsval \<Rightarrow> string) \<Rightarrow> jsval \<Rightarrow> string" where
  "toPropertyKey coerce v = (case v of JStr s \<Rightarrow> s | _ \<Rightarrow> coerce v)"

definition set_property :: "entries \<Rightarrow> string \<Rightarrow> jsval \<Rightarrow> entries" where
  "set_property out k v = (if k = ''__proto__'' then out else AList.update k v out)"

text \<open>
  The second and third argument of the implementation signature (lines 130 to 137):
  \<^verbatim>\<open>arg2?: ValueSchema | LooseOpts<...>\<close> is a validator instance or another object,
  \<^verbatim>\<open>arg3?: LooseRecordOpts<...>\<close>. An argument that is left out is \<open>None\<close>; an object is
  never falsy. \<^verbatim>\<open>arg2 instanceof z.ZodType\<close> holds of \<open>Schema\<close> and of nothing else.
\<close>

datatype 'st arg = Schema schema | Options "(entries, 'st) LooseOpts"

record 'st resolved =
  Key :: schema
  Value :: "'st arg"
  opts :: "(entries, 'st) LooseOpts"


text \<open>
  The loop of the path without a callback (lines 162 to 168): key and value are both
  parsed, and the entry is written when both succeeded.
\<close>

fun LooseRecord_fast ::
  "(jsval \<Rightarrow> string) \<Rightarrow> schema \<Rightarrow> schema \<Rightarrow> entries \<Rightarrow> entries \<Rightarrow> entries" where
  "LooseRecord_fast coerce K V [] out = out"
| "LooseRecord_fast coerce K V ((inputKey, inputVal) # rest) out =
     (let parsedKey = K (JStr inputKey); parsedValue = V inputVal in
      case (parsedKey, parsedValue) of
        (Success keyData, Success valData) \<Rightarrow>
          LooseRecord_fast coerce K V rest (set_property out (toPropertyKey coerce keyData) valData)
      | _ \<Rightarrow> LooseRecord_fast coerce K V rest out)"

text \<open>
  The loop of the path with a callback (lines 177 to 198): a failing key ends the
  entry before its value is parsed; the issues of the failing side go to the issue list
  under the input key.
\<close>

fun LooseRecord_loop ::
  "(jsval \<Rightarrow> string) \<Rightarrow> schema \<Rightarrow> schema \<Rightarrow> entries \<Rightarrow> entries \<Rightarrow> ZodIssue list
     \<Rightarrow> entries \<times> ZodIssue list" where
  "LooseRecord_loop coerce K V [] out issues = (out, issues)"
| "LooseRecord_loop coerce K V ((inputKey, inputVal) # rest) out issues =
     (case K (JStr inputKey) of
        Failure kerrs \<Rightarrow>
          LooseRecord_loop coerce K V rest out (issues @ map (unshift (KeySeg inputKey)) kerrs)
      | Success keyData \<Rightarrow>
          (case V inputVal of
             Failure verrs \<Rightarrow>
               LooseRecord_loop coerce K V rest out (issues @ map (unshift (KeySeg inputKey)) verrs)
           | Success valData \<Rightarrow>
               LooseRecord_loop coerce K V rest
                 (set_property out (toPropertyKey coerce keyData) valData) issues))"

text \<open>Lines 157 to 206, for a resolved key schema, value schema and options.\<close>

definition LooseRecord_schema ::
  "(jsval \<Rightarrow> string) \<Rightarrow> error_map \<Rightarrow> schema \<Rightarrow> schema \<Rightarrow> (entries, 'st) LooseOpts
     \<Rightarrow> jsval \<Rightarrow> 'st \<Rightarrow> entries parse_result \<times> 'st" where
  "LooseRecord_schema coerce emap K V os v st =
     (case onError os of
        None \<Rightarrow>
          (case z_record_any emap v of
             Failure e \<Rightarrow> (Failure e, st)
           | Success inp \<Rightarrow> (Success (LooseRecord_fast coerce K V inp []), st))
      | Some cb \<Rightarrow>
          (case z_record_any emap v of
             Failure e \<Rightarrow> (Failure e, st)
           | Success inp \<Rightarrow>
               (case LooseRecord_loop coerce K V inp [] [] of
                  (out, issues) \<Rightarrow>
                    (Success out,
                     if issues \<noteq> [] then cb \<lparr>error = issues, input = inp\<rparr> st else st))))"


text \<open>What the record loops are compared with below: whether an entry validates, the
  name and value it is written under (nothing is written under \<^verbatim>\<open>__proto__\<close>), and the
  issues it adds.\<close>

definition entry_ok :: "schema \<Rightarrow> schema \<Rightarrow> string \<times> jsval \<Rightarrow> bool" where
  "entry_ok K V e = (is_success (K (JStr (fst e))) \<and> is_success (V (snd e)))"


definition entry_issues :: "schema \<Rightarrow> schema \<Rightarrow> entries \<Rightarrow> ZodIssue list" where
  "entry_issues K V m =
     concat (map (\<lambda>(k, v). case K (JStr k) of
                               Failure kerrs \<Rightarrow> map (unshift (KeySeg k)) kerrs
                             | Success kd \<Rightarrow> dropped_issues (KeySeg k) V v) m)"

text \<open>A callback that records the context of each of its calls, in order.\<close>

definition record_call :: "'t ErrorContext \<Rightarrow> 't ErrorContext list \<Rightarrow> 't ErrorContext list" where
  "record_call ctx calls = calls @ [ctx]"

section \<open>Format validators\<close>

text \<open>
  \<^verbatim>\<open>schema.transform((value, ctx) => ...)\<close>: the callback runs on the output of a
  successful schema; it returns its value, or the issues it added to \<^verbatim>\<open>ctx\<close> before
  returning \<^verbatim>\<open>z.NEVER\<close>. \<^verbatim>\<open>ctx.addIssue\<close> on a top-level parse gives the issue the root
  path; an issue without \<^verbatim>\<open>fatal\<close> is not fatal.
\<close>

definition transform ::
  "('i \<Rightarrow> 'a parse_result) \<Rightarrow> ('a \<Rightarrow> ZodIssue list + 'b) \<Rightarrow> 'i \<Rightarrow> 'b parse_result" where
  "transform sch f v =
     (case sch v of
        Failure e \<Rightarrow> Failure e
      | Success a \<Rightarrow> (case f a of Inl issues \<Rightarrow> Failure issues | Inr b \<Rightarrow> Success b))"

definition addIssue :: "issue_code \<Rightarrow> string \<Rightarrow> bool \<Rightarrow> ZodIssue" where
  "addIssue c msg f = \<lparr>path = [], code = c, message = msg, fatal = f\<rparr>"

text \<open>
  The parsers (\<^verbatim>\<open>JSON.parse\<close>, \<^verbatim>\<open>JSON5.parse\<close>, \<^verbatim>\<open>parseJsonc\<close>, \<^verbatim>\<open>parseSingleYaml\<close>,
  \<^verbatim>\<open>parseYaml\<close>, \<^verbatim>\<open>parseToml\<close>) are parameters: from the text to the parsed value, or
  \<open>None\<close> when the parser throws.
\<close>

type_synonym parser = "string \<Rightarrow> jsval option"

definition Json :: "parser \<Rightarrow> error_map \<Rightarrow> jsval \<Rightarrow> jsval parse_result" where
  "Json JSON_parse emap =
     transform (z_string emap)
       (\<lambda>str. case JSON_parse str of
                 Some v \<Rightarrow> Inr v
               | None \<Rightarrow> Inl [addIssue custom ''Invalid JSON'' False])"

definition Json5 :: "parser \<Rightarrow> error_map \<Rightarrow> jsval \<Rightarrow> jsval parse_result" where
  "Json5 JSON5_parse emap =
     transform (z_string emap)
       (\<lambda>str. case JSON5_parse str of
                 Some v \<Rightarrow> Inr v
               | None \<Rightarrow> Inl [addIssue custom ''Invalid JSON5'' False])"

definition Jsonc :: "parser \<Rightarrow> error_map \<Rightarrow> jsval \<Rightarrow> jsval parse_result" where
  "Jsonc parseJsonc emap =
     transform (z_string emap)
       (\<lambda>str. case parseJsonc str of
                 Some v \<Rightarrow> Inr v
               | None \<Rightarrow> Inl [addIssue custom ''Invalid JSONC'' False])"

definition Yaml :: "parser \<Rightarrow> error_map \<Rightarrow> jsval \<Rightarrow> jsval parse_result" where
  "Yaml parseSingleYaml emap =
     transform (z_string emap)
       (\<lambda>str. case parseSingleYaml str of
                 Some v \<Rightarrow> Inr v
               | None \<Rightarrow> Inl [addIssue custom ''Invalid YAML'' False])"

definition MultidocYaml :: "parser \<Rightarrow> error_map \<Rightarrow> jsval \<Rightarrow> jsval parse_result" where
  "MultidocYaml parseYaml emap =
     transform (z_string emap)
       (\<lambda>str. case parseYaml str of
                 Some v \<Rightarrow> Inr v
               | None \<Rightarrow> Inl [addIssue custom ''Invalid YAML'' False])"

definition Toml :: "parser \<Rightarrow> error_map \<Rightarrow> jsval \<Rightarrow> jsval parse_result" where
  "Toml parseToml emap =
     transform (z_string emap)
       (\<lambda>str. case parseToml str of
                 Some v \<Rightarrow> Inr v
               | None \<Rightarrow> Inl [addIssue custom ''Invalid TOML'' False])"

text \<open>
  The result of luxon's \<^verbatim>\<open>DateTime.fromISO\<close>: an invalid date, or an instant (seconds since
  the epoch) shown in a zone. A zone is its offset from UTC in minutes.
\<close>

datatype DateTime = InvalidDateTime | DateTime int int

fun isValid :: "DateTime \<Rightarrow> bool" where
  "isValid InvalidDateTime = False"
| "isValid (DateTime ts zone) = True"

definition utc :: int where
  "utc = 0"

text \<open>
  Lines 237 to 246. \<^verbatim>\<open>DateTime.fromISO\<close> is a parameter; it is called with the zone
  \<^verbatim>\<open>utc\<close>, and a date that is not valid becomes one \<open>custom\<close> issue.
\<close>

definition UtcDate :: "(string \<Rightarrow> int \<Rightarrow> DateTime) \<Rightarrow> error_map \<Rightarrow> jsval \<Rightarrow> DateTime parse_result" where
  "UtcDate fromISO emap =
     transform (z_string emap)
       (\<lambda>str. let date = fromISO str utc in
              if \<not> isValid date then Inl [addIssue custom ''Invalid date'' False]
              else Inr date)"

text \<open>
  Modelled from the spec: \<^verbatim>\<open>DateTime.fromISO\<close> is code of the luxon library, absent from
  the sources. Sections 4.4 and 8: the text is an ISO 8601 timestamp; a timestamp with no
  explicit offset is read in the zone that is passed; an impossible calendar date is
  invalid, not moved to a valid one. The forms read here are \<^verbatim>\<open>YYYY-MM-DD\<close> alone and
  followed by \<^verbatim>\<open>Thh:mm:ss\<close>, then nothing, \<^verbatim>\<open>Z\<close> or \<^verbatim>\<open>+hh:mm\<close> / \<^verbatim>\<open>-hh:mm\<close>.
\<close>

definition digit_val :: "char \<Rightarrow> nat option" where
  "digit_val c =
     (let n = (of_char c :: nat) in if 48 \<le> n \<and> n \<le> 57 then Some (n - 48) else None)"

fun number :: "string \<Rightarrow> nat \<Rightarrow> nat option" where
  "number [] acc = Some acc"
| "number (c # cs) acc =
     (case digit_val c of None \<Rightarrow> None | Some d \<Rightarrow> number cs (10 * acc + d))"

definition digits_at :: "nat \<Rightarrow> nat \<Rightarrow> string \<Rightarrow> nat option" where
  "digits_at i n s = (if i + n \<le> length s then number (take n (drop i s)) 0 else None)"

definition char_at :: "nat \<Rightarrow> char \<Rightarrow> string \<Rightarrow> bool" where
  "char_at i c s = (i < length s \<and> s ! i = c)"

definition leap_year :: "nat \<Rightarrow> bool" where
  "leap_year y = (y mod 4 = 0 \<and> (y mod 100 \<noteq> 0 \<or> y mod 400 = 0))"

definition days_in_month :: "nat \<Rightarrow> nat \<Rightarrow> nat" where
  "days_in_month y m =
     (if m = 2 then (if leap_year y then 29 else 28)
      else if m = 4 \<or> m = 6 \<or> m = 9 \<or> m = 11 then 30
      else 31)"

definition days_from_civil :: "nat \<Rightarrow> nat \<Rightarrow> nat \<Rightarrow> int" where
  "days_from_civil y m d =
     (let y' = int y - (if m \<le> 2 then 1 else 0);
          era = y' div 400;
          yoe = y' - era * 400;
          doy = (153 * (int m + (if 2 < m then - 3 else 9)) + 2) div 5 + int d - 1;
          doe = yoe * 365 + yoe div 4 - yoe div 100 + doy
      in era * 146097 + doe - 719468)"

definition instant :: "nat \<Rightarrow> nat \<Rightarrow> nat \<Rightarrow> nat \<Rightarrow> nat \<Rightarrow> nat \<Rightarrow> int \<Rightarrow> int" where
  "instant y m d hh mi ss off =
     ((days_from_civil y m d * 24 + int hh) * 60 + int mi - off) * 60 + int ss"

datatype offset = NoOffset | Offset int | BadOffset

definition parse_offset :: "string \<Rightarrow> offset" where
  "parse_offset s =
     (if s = [] then NoOffset
      else if s = ''Z'' then Offset 0
      else if length s = 6 \<and> (char_at 0 (CHR ''+'') s \<or> char_at 0 (CHR ''-'') s)
              \<and> char_at 3 (CHR '':'') s then
        (case (digits_at 1 2 s, digits_at 4 2 s) of
           (Some hh, Some mi) \<Rightarrow>
             if hh \<le> 23 \<and> mi \<le> 59 then
               Offset ((if char_at 0 (CHR ''-'') s then - 1 else 1) * int (hh * 60 + mi))
             else BadOffset
         | _ \<Rightarrow> BadOffset)
      else BadOffset)"

definition fromISO_spec :: "string \<Rightarrow> int \<Rightarrow> DateTime" where
  "fromISO_spec s zone =
     (if char_at 4 (CHR ''-'') s \<and> char_at 7 (CHR ''-'') s then
        (case (digits_at 0 4 s, digits_at 5 2 s, digits_at 8 2 s) of
           (Some y, Some m, Some d) \<Rightarrow>
             if 1 \<le> m \<and> m \<le> 12 \<and> 1 \<le> d \<and> d \<le> days_in_month y m then
               (if length s = 10 then DateTime (instant y m d 0 0 0 zone) zone
                else if char_at 10 (CHR ''T'') s \<and> char_at 13 (CHR '':'') s
                        \<and> char_at 16 (CHR '':'') s then
                  (case (digits_at 11 2 s, digits_at 14 2 s, digits_at 17 2 s) of
                     (Some hh, Some mi, Some ss) \<Rightarrow>
                       if hh \<le> 23 \<and> mi \<le> 59 \<and> ss \<le> 59 then
                         (case parse_offset (drop 19 s) of
                            NoOffset \<Rightarrow> DateTime (instant y m d hh mi ss zone) zone
                          | Offset off \<Rightarrow> DateTime (instant y m d hh mi ss off) zone
                          | BadOffset \<Rightarrow> InvalidDateTime)
                       else InvalidDateTime
                   | _ \<Rightarrow> InvalidDateTime)
                else InvalidDateTime)
             else InvalidDateTime
         | _ \<Rightarrow> InvalidDateTime)
      else InvalidDateTime)"

section \<open>The circular-reference detector\<close>

text \<open>
  \<^verbatim>\<open>isCircular\<close> compares objects by identity (\<^verbatim>\<open>visited.has(value)\<close>), so its input is a
  value over a store of objects: a value is a primitive or a reference, the store gives
  every reference its object, an array or a plain object. The references of one input are
  finitely many, the type \<open>'a\<close> of a finite class.
\<close>

datatype 'a hval =
    HUndefined
  | HNull
  | HBool bool
  | HNum int
  | HStr string
  | HRef 'a

datatype 'a hobj =
    HArray "'a hval list"
  | HObject "(string \<times> 'a hval) list"

text \<open>
  Lines 322 to 352. The first test (\<^verbatim>\<open>null\<close>, or not of type object) is the last
  equation. Each of the two loops returns \<^verbatim>\<open>true\<close> at the first child that is circular
  and \<^verbatim>\<open>false\<close> after the last one: it returns whether some child is circular.
\<close>

function (sequential) isCircular :: "('a::finite \<Rightarrow> 'a hobj) \<Rightarrow> 'a hval \<Rightarrow> 'a set \<Rightarrow> bool" where
  "isCircular h (HRef a) visited =
     (if a \<in> visited then True
      else (let downstreamVisited = insert a visited in
            case h a of
              HArray vs \<Rightarrow> list_ex (\<lambda>childValue. isCircular h childValue downstreamVisited) vs
            | HObject kvs \<Rightarrow>
                list_ex (\<lambda>ov. isCircular h ov downstreamVisited) (map snd kvs)))"
| "isCircular h v visited = False"
  by pat_completeness auto
termination
proof (relation "measure (\<lambda>(h, v, visited). card (- visited))")
  show "wf (measure (\<lambda>(h, v, visited). card (- visited)))"
    by simp
next
  fix h :: "'a \<Rightarrow> 'a hobj" and a :: 'a and visited x xa xb
  assume "a \<notin> visited" "x = insert a visited"
  then have "- x \<subset> - visited"
    by auto
  then have "card (- x) < card (- visited)"
    by (simp add: psubset_card_mono)
  then show "((h, xb, x), (h, HRef a, visited)) \<in> measure (\<lambda>(h, v, visited). card (- visited))"
    by simp
next
  fix h :: "'a \<Rightarrow> 'a hobj" and a :: 'a and visited x xa xb
  assume "a \<notin> visited" "x = insert a visited"
  then have "- x \<subset> - visited"
    by auto
  then have "card (- x) < card (- visited)"
    by (simp add: psubset_card_mono)
  then show "((h, xb, x), (h, HRef a, visited)) \<in> measure (\<lambda>(h, v, visited). card (- visited))"
    by simp
qed

text \<open>
  Lines 354 to 364: \<^verbatim>\<open>z.unknown().superRefine\<close> accepts every value; the refinement adds
  one fatal issue when the value is circular and leaves the value as it is otherwise.
  \<^verbatim>\<open>isCircular(val)\<close> starts from the empty set of visited objects.
\<close>

definition NotCircular :: "('a::finite \<Rightarrow> 'a hobj) \<Rightarrow> 'a hval \<Rightarrow> 'a hval parse_result" where
  "NotCircular h val =
     (if isCircular h val {} then
        Failure [addIssue custom ''values cannot be circular data structures'' True]
      else Success val)"

text \<open>
  The same function with a bound on the depth of the recursion, for any type of
  references: \<open>None\<close> when the bound is reached before the walk has returned.
\<close>

fun first_circular :: "('a hval \<Rightarrow> bool option) \<Rightarrow> 'a hval list \<Rightarrow> bool option" where
  "first_circular f [] = Some False"
| "first_circular f (c # cs) =
     (case f c of
        None \<Rightarrow> None
      | Some True \<Rightarrow> Some True
      | Some False \<Rightarrow> first_circular f cs)"

fun isCircular_depth :: "nat \<Rightarrow> ('a \<Rightarrow> 'a hobj) \<Rightarrow> 'a hval \<Rightarrow> 'a set \<Rightarrow> bool option" where
  "isCircular_depth 0 h v visited = None"
| "isCircular_depth (Suc n) h (HRef a) visited =
     (if a \<in> visited then Some True
      else (let downstreamVisited = insert a visited in
            case h a of
              HArray vs \<Rightarrow>
                first_circular (\<lambda>childValue. isCircular_depth n h childValue downstreamVisited) vs
            | HObject kvs \<Rightarrow>
                first_circular (\<lambda>ov. isCircular_depth n h ov downstreamVisited) (map snd kvs)))"
| "isCircular_depth (Suc n) h v visited = Some False"

text \<open>
  The object graph of the spec (section 3): the children of an object are the references
  among its elements or values; a path follows child references; a value is circular
  when some object appears twice on one path that starts at it.
\<close>

definition children :: "('a \<Rightarrow> 'a hobj) \<Rightarrow> 'a \<Rightarrow> 'a hval list" where
  "children h a = (case h a of HArray vs \<Rightarrow> vs | HObject kvs \<Rightarrow> map snd kvs)"

fun is_path :: "('a \<Rightarrow> 'a hobj) \<Rightarrow> 'a list \<Rightarrow> bool" where
  "is_path h [] = True"
| "is_path h [a] = True"
| "is_path h (a # b # rest) = (HRef b \<in> set (children h a) \<and> is_path h (b # rest))"

definition appears_twice :: "('a \<Rightarrow> 'a hobj) \<Rightarrow> 'a hval \<Rightarrow> bool" where
  "appears_twice h v =
     (\<exists>p. p \<noteq> [] \<and> v = HRef (hd p) \<and> is_path h p \<and> \<not> distinct p)"

text \<open>
  The same with the objects already open on the path: a path from the object repeats an
  object or reaches one of the visited ones.
\<close>

definition meets :: "('a \<Rightarrow> 'a hobj) \<Rightarrow> 'a \<Rightarrow> 'a set \<Rightarrow> bool" where
  "meets h a visited =
     (\<exists>p. p \<noteq> [] \<and> hd p = a \<and> is_path h p \<and> (\<not> distinct p \<or> set p \<inter> visited \<noteq> {}))"

text \<open>The two graphs of section 8, over four objects.\<close>

datatype ref4 = ref_root | ref_a | ref_b | ref_c

instantiation ref4 :: finite
begin

instance
proof
  have u: "(UNIV :: ref4 set) = {ref_root, ref_a, ref_b, ref_c}"
  proof (rule set_eqI)
    fix x :: ref4
    show "x \<in> UNIV \<longleftrightarrow> x \<in> {ref_root, ref_a, ref_b, ref_c}"
      by (cases x) simp_all
  qed
  show "finite (UNIV :: ref4 set)"
    by (subst u) simp
qed

end

text \<open>A mapping whose key \<open>self\<close> holds the mapping itself.\<close>

fun self_heap :: "ref4 \<Rightarrow> ref4 hobj" where
  "self_heap ref_a = HObject [(''self'', HRef ref_a)]"
| "self_heap r = HObject []"

text \<open>A root with the siblings \<open>a\<close> and \<open>b\<close>, both holding the mapping \<open>c\<close>, which holds no
  reference.\<close>

fun shared_heap :: "ref4 \<Rightarrow> ref4 hobj" where
  "shared_heap ref_root = HObject [(''a'', HRef ref_a), (''b'', HRef ref_b)]"
| "shared_heap ref_a = HObject [(''c'', HRef ref_c)]"
| "shared_heap ref_b = HObject [(''c'', HRef ref_c)]"
| "shared_heap ref_c = HObject [(''n'', HNum 1)]"

section \<open>Schemas and parameters of the examples\<close>


definition no_coerce :: "jsval \<Rightarrow> string" where
  "no_coerce v = ''[object Object]''"

definition plain_messages :: error_map where
  "plain_messages expected received = ''Expected '' @ expected"

section \<open>Properties of LooseArray\<close>

lemma LooseArray_fast_outputs:
  "LooseArray_fast Elem xs acc = acc @ outputs_of Elem xs"
  by (induction xs arbitrary: acc) (auto split: parse_result.splits)

lemma issues_from_Cons:
  "issues_from Elem i (x # xs) = dropped_issues (IndexSeg i) Elem x @ issues_from Elem (Suc i) xs"
  by (simp add: issues_from_def)

lemma LooseArray_loop_drop:
  "LooseArray_loop Elem inp idx out issues =
     (out @ outputs_of Elem (drop idx inp), issues @ issues_from Elem idx (drop idx inp))"
proof (induction Elem inp idx out issues rule: LooseArray_loop.induct)
  case (1 Elem inp idx out issues)
  show ?case
  proof (cases "idx < length inp")
    case False
    then show ?thesis by (simp add: LooseArray_loop.simps issues_from_def)
  next
    case True
    then have d: "drop idx inp = inp ! idx # drop (Suc idx) inp"
      by (simp add: Cons_nth_drop_Suc)
    show ?thesis
    proof (cases "Elem (inp ! idx)")
      case (Success data)
      with True d "1.IH"(1) [OF True Success] show ?thesis
        by (subst LooseArray_loop.simps) (simp add: issues_from_Cons dropped_issues_def)
    next
      case (Failure errs)
      with True d "1.IH"(2) [OF True Failure] show ?thesis
        by (subst LooseArray_loop.simps) (simp add: issues_from_Cons dropped_issues_def)
    qed
  qed
qed

lemma length_outputs_of: "length (outputs_of Elem xs) \<le> length xs"
  by (induction xs) (auto split: parse_result.splits)

lemma outputs_of_filter:
  "map Success (outputs_of Elem xs) = filter is_success (map Elem xs)"
  by (induction xs) (auto simp: is_success_def split: parse_result.splits)

lemma LooseArray_result:
  "fst (LooseArray emap Elem os (JArr xs) st) = Success (outputs_of Elem xs)"
  by (simp add: LooseArray_def z_array_any_def LooseArray_fast_outputs LooseArray_loop_drop
      split: option.splits)

text \<open>
  C3. For every sequence input \<open>s\<close>, a successful \<open>LooseArray(V).validate(s)\<close> returns exactly
  the outputs of \<open>V\<close> for those elements of \<open>s\<close> on which \<open>V\<close> succeeds, in the original
  order, so the output is at most as long as the input; failing elements are skipped and
  the remaining elements are still validated. With or without a callback, the results of
  \<open>V\<close> that are successes, in order, are the successes of the output's elements.
\<close>

theorem LooseArray_keeps_successes:
  "\<exists>out. fst (LooseArray emap V os (JArr s) st) = Success out
      \<and> map Success out = filter is_success (map V s)
      \<and> length out \<le> length s"
  using LooseArray_result [of emap V os s st] outputs_of_filter [of V s] length_outputs_of [of V s]
  by blast

text \<open>
  C7. For every input that is not a sequence and every element validator \<open>V\<close>,
  \<open>LooseArray(V).validate\<close> fails with one \<open>invalid_type\<close> issue at the root path, and the
  callback is not called; the empty sequence is valid and gives the empty output, again
  without a call of the callback (the caller's state is unchanged).
\<close>

theorem LooseArray_container_shape:
  "((\<forall>xs. v \<noteq> JArr xs) \<longrightarrow>
      (\<exists>i. LooseArray emap V os v st = (Failure [i], st) \<and> code i = invalid_type \<and> path i = []))
   \<and> LooseArray emap V os (JArr []) st = (Success [], st)"
proof
  show "(\<forall>xs. v \<noteq> JArr xs) \<longrightarrow>
      (\<exists>i. LooseArray emap V os v st = (Failure [i], st) \<and> code i = invalid_type \<and> path i = [])"
    by (cases v) (auto simp: LooseArray_def z_array_any_def split: option.splits)
  show "LooseArray emap V os (JArr []) st = (Success [], st)"
    by (simp add: LooseArray_def z_array_any_def LooseArray_loop.simps split: option.splits)
qed

theorem LooseArray_container_shape_witness:
  "(\<forall>xs. JStr ''x'' \<noteq> JArr xs)
   \<and> (\<exists>i. LooseArray plain_messages z_any no_opts (JStr ''x'') (0::nat) = (Failure [i], 0)
          \<and> code i = invalid_type \<and> path i = [])
   \<and> LooseArray plain_messages z_any no_opts (JArr []) (0::nat) = (Success [], 0)"
  using LooseArray_container_shape [of "JStr ''x''" plain_messages z_any no_opts "0::nat"]
  by simp

section \<open>Properties of LooseRecord\<close>

lemma entry_issues_Cons:
  "entry_issues K V ((k, v) # m) =
     (case K (JStr k) of
        Failure kerrs \<Rightarrow> map (unshift (KeySeg k)) kerrs
      | Success kd \<Rightarrow> dropped_issues (KeySeg k) V v) @ entry_issues K V m"
  by (simp add: entry_issues_def)

lemma LooseRecord_loop_fast:
  "LooseRecord_loop coerce K V m out issues =
     (LooseRecord_fast coerce K V m out, issues @ entry_issues K V m)"
proof (induction m arbitrary: out issues)
  case Nil
  show ?case by (simp add: entry_issues_def)
next
  case (Cons e m)
  obtain k v where e: "e = (k, v)" by (cases e)
  show ?case
    unfolding e
    by (cases "K (JStr k)"; cases "V v")
       (simp_all add: Cons.IH entry_issues_Cons dropped_issues_def)
qed





lemma issues_from_empty_iff:
  assumes "\<forall>x. V x \<noteq> Failure []"
  shows "issues_from V i xs = [] \<longleftrightarrow> (\<forall>x \<in> set xs. is_success (V x))"
proof (induction xs arbitrary: i)
  case Nil
  show ?case by (simp add: issues_from_def)
next
  case (Cons x xs)
  from assms have "V x \<noteq> Failure []" by blast
  then show ?case
    by (cases "V x") (simp_all add: issues_from_Cons dropped_issues_def is_success_def Cons.IH)
qed

lemma entry_issues_empty_iff:
  assumes "\<forall>x. K x \<noteq> Failure []" and "\<forall>x. V x \<noteq> Failure []"
  shows "entry_issues K V m = [] \<longleftrightarrow> (\<forall>e \<in> set m. entry_ok K V e)"
proof (induction m)
  case Nil
  show ?case by (simp add: entry_issues_def)
next
  case (Cons e m)
  obtain k v where e: "e = (k, v)" by (cases e)
  from assms have "K (JStr k) \<noteq> Failure []" "V v \<noteq> Failure []" by blast+
  then show ?case
    unfolding e
    by (cases "K (JStr k)"; cases "V v")
       (simp_all add: entry_issues_Cons dropped_issues_def is_success_def entry_ok_def Cons.IH)
qed



lemma LooseArray_with_callback:
  "LooseArray emap V \<lparr>onError = Some cb\<rparr> (JArr xs) st =
     (Success (outputs_of V xs),
      if issues_from V 0 xs \<noteq> [] then cb \<lparr>error = issues_from V 0 xs, input = xs\<rparr> st else st)"
  by (simp add: LooseArray_def z_array_any_def LooseArray_loop_drop)

lemma LooseRecord_with_callback:
  "LooseRecord_schema coerce emap K V \<lparr>onError = Some cb\<rparr> (JObj m) st =
     (Success (LooseRecord_fast coerce K V m []),
      if entry_issues K V m \<noteq> [] then cb \<lparr>error = entry_issues K V m, input = m\<rparr> st else st)"
  by (simp add: LooseRecord_schema_def z_record_any_def LooseRecord_loop_fast)


lemma LooseRecord_loop_key_cong:
  "(\<And>k. K (JStr k) = K' (JStr k)) \<Longrightarrow>
     LooseRecord_loop coerce K V m out issues = LooseRecord_loop coerce K' V m out issues"
  by (induction m arbitrary: out issues) (auto split: parse_result.splits)


lemma LooseArray_calls_le_1:
  "length (snd (LooseArray emap V \<lparr>onError = Some record_call\<rparr> v [])) \<le> 1"
  by (cases "z_array_any emap v")
     (simp_all add: LooseArray_def LooseArray_loop_drop record_call_def)

lemma LooseRecord_calls_le_1:
  "length (snd (LooseRecord_schema coerce emap K W \<lparr>onError = Some record_call\<rparr> v [])) \<le> 1"
  by (cases "z_record_any emap v")
     (simp_all add: LooseRecord_schema_def LooseRecord_loop_fast record_call_def)

lemma z_string_key_nonempty: "\<forall>x. z_string_key emap x \<noteq> Failure []"
  by (simp add: z_string_key_def z_string_def split: jsval.splits)

lemma LooseRecord_proto_not_written:
  "fst (LooseRecord_schema no_coerce plain_messages z_any z_any no_opts
          (JObj [(''__proto__'', JNum 1), (''a'', JNum 2)]) ()) = Success [(''a'', JNum 2)]"
  by (simp add: LooseRecord_schema_def no_opts_def z_record_any_def z_any_def set_property_def
      toPropertyKey_def)




text \<open>
  C4. One \<open>validate\<close> call of \<open>LooseArray\<close> or \<open>LooseRecord\<close> with a callback calls it at
  most once, and exactly when an element or entry was dropped (not on a fully valid or
  empty input); the argument holds the input and the combined issue list, the issues of
  each dropped element under its index, those of each dropped entry under its input key
  (the key's issues when the key fails, the value's otherwise). The state after the call
  is the callback applied once, or the state before; with the recording callback the
  calls are that one context, or none. The element, key and value validators fail with
  at least one issue, as \<open>safeParse\<close> does.
\<close>

theorem loose_callback_once:
  assumes "\<forall>x. V x \<noteq> Failure []" and "\<forall>x. K x \<noteq> Failure []" and "\<forall>x. W x \<noteq> Failure []"
  shows
    "snd (LooseArray emap V \<lparr>onError = Some cb\<rparr> (JArr xs) st) =
       (if \<forall>x \<in> set xs. is_success (V x) then st
        else cb \<lparr>error = concat (map (\<lambda>(idx, x). dropped_issues (IndexSeg idx) V x) (enumerate 0 xs)),
                 input = xs\<rparr> st)
     \<and> snd (LooseArray emap V \<lparr>onError = Some record_call\<rparr> (JArr xs) []) =
       (if \<forall>x \<in> set xs. is_success (V x) then []
        else [\<lparr>error = concat (map (\<lambda>(idx, x). dropped_issues (IndexSeg idx) V x) (enumerate 0 xs)),
               input = xs\<rparr>])
     \<and> snd (LooseRecord_schema coerce emap K W \<lparr>onError = Some cb'\<rparr> (JObj m) st') =
       (if \<forall>e \<in> set m. entry_ok K W e then st'
        else cb' \<lparr>error = concat (map (\<lambda>(k, v). case K (JStr k) of
                                        Failure kerrs \<Rightarrow> map (unshift (KeySeg k)) kerrs
                                      | Success kd \<Rightarrow> dropped_issues (KeySeg k) W v) m),
                  input = m\<rparr> st')
     \<and> snd (LooseRecord_schema coerce emap K W \<lparr>onError = Some record_call\<rparr> (JObj m) []) =
       (if \<forall>e \<in> set m. entry_ok K W e then []
        else [\<lparr>error = concat (map (\<lambda>(k, v). case K (JStr k) of
                                        Failure kerrs \<Rightarrow> map (unshift (KeySeg k)) kerrs
                                      | Success kd \<Rightarrow> dropped_issues (KeySeg k) W v) m),
               input = m\<rparr>])
     \<and> length (snd (LooseArray emap V \<lparr>onError = Some record_call\<rparr> v [])) \<le> 1
     \<and> length (snd (LooseRecord_schema coerce emap K W \<lparr>onError = Some record_call\<rparr> v [])) \<le> 1"
proof -
  have a: "(issues_from V 0 xs = []) = (\<forall>x \<in> set xs. is_success (V x))"
    using assms(1) by (rule issues_from_empty_iff)
  have r: "(entry_issues K W m = []) = (\<forall>e \<in> set m. entry_ok K W e)"
    using assms(2,3) by (rule entry_issues_empty_iff)
  have i: "issues_from V 0 xs =
      concat (map (\<lambda>(idx, x). dropped_issues (IndexSeg idx) V x) (enumerate 0 xs))"
    by (simp add: issues_from_def)
  have e: "entry_issues K W m =
      concat (map (\<lambda>(k, v). case K (JStr k) of
                                        Failure kerrs \<Rightarrow> map (unshift (KeySeg k)) kerrs
                                      | Success kd \<Rightarrow> dropped_issues (KeySeg k) W v) m)"
    by (simp add: entry_issues_def)
  show ?thesis
    unfolding LooseArray_with_callback LooseRecord_with_callback snd_conv a r
    unfolding i e
    using LooseArray_calls_le_1 [of emap V v] LooseRecord_calls_le_1 [of coerce emap K W v]
    by (simp add: record_call_def)
qed

theorem loose_callback_once_witness:
  "(\<forall>x. z_string_key plain_messages x \<noteq> Failure [])
   \<and> snd (LooseArray plain_messages (z_string_key plain_messages) \<lparr>onError = Some record_call\<rparr>
           (JArr [JStr ''a'', JNum 1]) [])
       = [\<lparr>error = [\<lparr>path = [IndexSeg 1], code = invalid_type, message = ''Expected string'',
                       fatal = False\<rparr>],
            input = [JStr ''a'', JNum 1]\<rparr>]
   \<and> snd (LooseRecord_schema no_coerce plain_messages (z_string_key plain_messages)
           (z_string_key plain_messages) \<lparr>onError = Some record_call\<rparr>
           (JObj [(''a'', JStr ''x''), (''b'', JNull)]) [])
       = [\<lparr>error = [\<lparr>path = [KeySeg ''b''], code = invalid_type, message = ''Expected string'',
                       fatal = False\<rparr>],
            input = [(''a'', JStr ''x''), (''b'', JNull)]\<rparr>]"
proof -
  have h: "\<forall>x. z_string_key plain_messages x \<noteq> Failure []"
    by (rule z_string_key_nonempty)
  note t = loose_callback_once [OF h h h, where emap = plain_messages and xs = "[JStr ''a'', JNum 1]"
      and coerce = no_coerce and m = "[(''a'', JStr ''x''), (''b'', JNull)]"]
  have a: "snd (LooseArray plain_messages (z_string_key plain_messages) \<lparr>onError = Some record_call\<rparr>
           (JArr [JStr ''a'', JNum 1]) [])
       = [\<lparr>error = [\<lparr>path = [IndexSeg 1], code = invalid_type, message = ''Expected string'',
                       fatal = False\<rparr>],
            input = [JStr ''a'', JNum 1]\<rparr>]"
    unfolding t [THEN conjunct2, THEN conjunct1]
    by (simp add: is_success_def z_string_key_def z_string_def dropped_issues_def
        unshift_def plain_messages_def enumerate_eq_zip)
  have r: "snd (LooseRecord_schema no_coerce plain_messages (z_string_key plain_messages)
           (z_string_key plain_messages) \<lparr>onError = Some record_call\<rparr>
           (JObj [(''a'', JStr ''x''), (''b'', JNull)]) [])
       = [\<lparr>error = [\<lparr>path = [KeySeg ''b''], code = invalid_type, message = ''Expected string'',
                       fatal = False\<rparr>],
            input = [(''a'', JStr ''x''), (''b'', JNull)]\<rparr>]"
    unfolding t [THEN conjunct2, THEN conjunct2, THEN conjunct2, THEN conjunct1]
    by (simp add: is_success_def entry_ok_def z_string_key_def z_string_def dropped_issues_def
        unshift_def plain_messages_def)
  from h a r show ?thesis by blast
qed

text \<open>
  C6. For every input, \<open>LooseArray\<close> and \<open>LooseRecord\<close> without a callback return the same
  result as with one, and leave the caller's state as it was: the path that skips the
  issue bookkeeping differs from the other in the call of the callback only.
\<close>

theorem loose_fast_path_equivalent:
  "fst (LooseArray emap V \<lparr>onError = None\<rparr> v st) = fst (LooseArray emap V \<lparr>onError = Some cb\<rparr> v st)
   \<and> snd (LooseArray emap V \<lparr>onError = None\<rparr> v st) = st
   \<and> fst (LooseRecord_schema coerce emap K W \<lparr>onError = None\<rparr> v st')
       = fst (LooseRecord_schema coerce emap K W \<lparr>onError = Some cb'\<rparr> v st')
   \<and> snd (LooseRecord_schema coerce emap K W \<lparr>onError = None\<rparr> v st') = st'"
proof (intro conjI)
  show "fst (LooseArray emap V \<lparr>onError = None\<rparr> v st) = fst (LooseArray emap V \<lparr>onError = Some cb\<rparr> v st)"
    by (cases "z_array_any emap v")
       (simp_all add: LooseArray_def LooseArray_fast_outputs LooseArray_loop_drop)
  show "snd (LooseArray emap V \<lparr>onError = None\<rparr> v st) = st"
    by (cases "z_array_any emap v") (simp_all add: LooseArray_def)
  show "fst (LooseRecord_schema coerce emap K W \<lparr>onError = None\<rparr> v st')
       = fst (LooseRecord_schema coerce emap K W \<lparr>onError = Some cb'\<rparr> v st')"
    by (cases "z_record_any emap v")
       (simp_all add: LooseRecord_schema_def LooseRecord_loop_fast)
  show "snd (LooseRecord_schema coerce emap K W \<lparr>onError = None\<rparr> v st') = st'"
    by (cases "z_record_any emap v") (simp_all add: LooseRecord_schema_def)
qed


section \<open>Properties of the format validators\<close>

text \<open>
  C8. For each of \<open>Json\<close>, \<open>Json5\<close>, \<open>Jsonc\<close>, \<open>Yaml\<close>, \<open>MultidocYaml\<close> and \<open>Toml\<close> and every
  text: when the parser throws, the validator fails with exactly one issue, of code
  \<open>custom\<close>, at the root path, with the message that names the format, and no output;
  when the parser returns, the output is the value it returned.
\<close>

theorem format_validators:
  "Json p emap (JStr s) =
     (case p s of
        Some v \<Rightarrow> Success v
      | None \<Rightarrow> Failure [\<lparr>path = [], code = custom, message = ''Invalid JSON'', fatal = False\<rparr>])
   \<and> Json5 p emap (JStr s) =
     (case p s of
        Some v \<Rightarrow> Success v
      | None \<Rightarrow> Failure [\<lparr>path = [], code = custom, message = ''Invalid JSON5'', fatal = False\<rparr>])
   \<and> Jsonc p emap (JStr s) =
     (case p s of
        Some v \<Rightarrow> Success v
      | None \<Rightarrow> Failure [\<lparr>path = [], code = custom, message = ''Invalid JSONC'', fatal = False\<rparr>])
   \<and> Yaml p emap (JStr s) =
     (case p s of
        Some v \<Rightarrow> Success v
      | None \<Rightarrow> Failure [\<lparr>path = [], code = custom, message = ''Invalid YAML'', fatal = False\<rparr>])
   \<and> MultidocYaml p emap (JStr s) =
     (case p s of
        Some v \<Rightarrow> Success v
      | None \<Rightarrow> Failure [\<lparr>path = [], code = custom, message = ''Invalid YAML'', fatal = False\<rparr>])
   \<and> Toml p emap (JStr s) =
     (case p s of
        Some v \<Rightarrow> Success v
      | None \<Rightarrow> Failure [\<lparr>path = [], code = custom, message = ''Invalid TOML'', fatal = False\<rparr>])"
  by (simp add: Json_def Json5_def Jsonc_def Yaml_def MultidocYaml_def Toml_def
      transform_def z_string_def addIssue_def split: option.splits)

lemma digit_val_simps [simp]:
  "digit_val CHR ''0'' = Some 0" "digit_val CHR ''1'' = Some 1" "digit_val CHR ''2'' = Some 2"
  "digit_val CHR ''3'' = Some 3" "digit_val CHR ''4'' = Some 4" "digit_val CHR ''5'' = Some 5"
  "digit_val CHR ''6'' = Some 6" "digit_val CHR ''7'' = Some 7" "digit_val CHR ''8'' = Some 8"
  "digit_val CHR ''9'' = Some 9"
  by (simp_all add: digit_val_def)

text \<open>
  C9. \<open>UtcDate.validate\<close> gives the date the ISO 8601 parser returns for the zone UTC, and
  fails with one \<open>custom\<close> issue when that date is not valid. With the parser of the spec,
  \<open>2024-01-01T00:00:00Z\<close> is midnight UTC of 1 January 2024 (1704067200 seconds after the
  epoch), the same text without an offset is the same instant, read as UTC, and both
  \<open>not-a-date\<close> and the impossible date \<open>2024-02-30T00:00:00Z\<close> fail with the issue.
\<close>

theorem UtcDate_parses:
  "UtcDate fromISO emap (JStr s) =
     (if isValid (fromISO s utc) then Success (fromISO s utc)
      else Failure [\<lparr>path = [], code = custom, message = ''Invalid date'', fatal = False\<rparr>])
   \<and> instant 2024 1 1 0 0 0 utc = 1704067200
   \<and> UtcDate fromISO_spec emap (JStr ''2024-01-01T00:00:00Z'') =
        Success (DateTime (instant 2024 1 1 0 0 0 utc) utc)
   \<and> UtcDate fromISO_spec emap (JStr ''2024-01-01T00:00:00'') =
        Success (DateTime (instant 2024 1 1 0 0 0 utc) utc)
   \<and> UtcDate fromISO_spec emap (JStr ''not-a-date'') =
        Failure [\<lparr>path = [], code = custom, message = ''Invalid date'', fatal = False\<rparr>]
   \<and> UtcDate fromISO_spec emap (JStr ''2024-02-30T00:00:00Z'') =
        Failure [\<lparr>path = [], code = custom, message = ''Invalid date'', fatal = False\<rparr>]"
proof -
  have g: "UtcDate fromISO emap (JStr s) =
     (if isValid (fromISO s utc) then Success (fromISO s utc)
      else Failure [\<lparr>path = [], code = custom, message = ''Invalid date'', fatal = False\<rparr>])"
    for fromISO s
    by (simp add: UtcDate_def transform_def z_string_def addIssue_def Let_def)
  have i: "instant 2024 1 1 0 0 0 utc = 1704067200"
    by (simp add: instant_def days_from_civil_def utc_def)
  have z: "fromISO_spec ''2024-01-01T00:00:00Z'' utc = DateTime 1704067200 utc"
    by (simp add: fromISO_spec_def char_at_def digits_at_def days_in_month_def leap_year_def
        parse_offset_def instant_def days_from_civil_def utc_def)
  have n: "fromISO_spec ''2024-01-01T00:00:00'' utc = DateTime 1704067200 utc"
    by (simp add: fromISO_spec_def char_at_def digits_at_def days_in_month_def leap_year_def
        parse_offset_def instant_def days_from_civil_def utc_def)
  have t: "fromISO_spec ''not-a-date'' utc = InvalidDateTime"
    by (simp add: fromISO_spec_def char_at_def digits_at_def digit_val_def)
  have f: "fromISO_spec ''2024-02-30T00:00:00Z'' utc = InvalidDateTime"
    by (simp add: fromISO_spec_def char_at_def digits_at_def days_in_month_def leap_year_def)
  show ?thesis
    unfolding g [of fromISO_spec] z n t f i
    by (simp add: g)
qed

section \<open>Properties of the circular-reference detector\<close>

lemma isCircular_ref:
  "isCircular h (HRef a) visited =
     (a \<in> visited \<or> (\<exists>c \<in> set (children h a). isCircular h c (insert a visited)))"
  by (simp add: children_def list_ex_iff split: hobj.splits)

lemma meets_visited: "a \<in> visited \<Longrightarrow> meets h a visited"
  unfolding meets_def by (rule exI [of _ "[a]"]) simp

lemma meets_child:
  assumes "HRef b \<in> set (children h a)" and "meets h b (insert a visited)"
  shows "meets h a visited"
proof -
  from assms(2) obtain p where p: "p \<noteq> []" "hd p = b" "is_path h p"
      "\<not> distinct p \<or> set p \<inter> insert a visited \<noteq> {}"
    unfolding meets_def by blast
  then obtain rest where r: "p = b # rest" by (cases p) auto
  have "is_path h (a # p)" using assms(1) p(3) r by simp
  moreover have "\<not> distinct (a # p) \<or> set (a # p) \<inter> visited \<noteq> {}"
    using p(4) by auto
  ultimately show ?thesis
    unfolding meets_def by (intro exI [of _ "a # p"]) simp
qed

lemma meets_step:
  assumes "meets h a visited" and "a \<notin> visited"
  shows "\<exists>b. HRef b \<in> set (children h a) \<and> meets h b (insert a visited)"
proof -
  from assms(1) obtain p where p: "p \<noteq> []" "hd p = a" "is_path h p"
      "\<not> distinct p \<or> set p \<inter> visited \<noteq> {}"
    unfolding meets_def by blast
  then obtain rest where r: "p = a # rest" by (cases p) auto
  have "rest \<noteq> []"
    using p(4) assms(2) r by auto
  then obtain b rest' where r': "rest = b # rest'" by (cases rest) auto
  have c: "HRef b \<in> set (children h a)" and q: "is_path h rest"
    using p(3) r r' by simp_all
  have "\<not> distinct rest \<or> set rest \<inter> insert a visited \<noteq> {}"
    using p(4) assms(2) r by auto
  then have "meets h b (insert a visited)"
    unfolding meets_def using q r' by (intro exI [of _ rest]) simp
  with c show ?thesis by blast
qed

lemma isCircular_meets:
  "isCircular h v visited = (\<exists>a. v = HRef a \<and> meets h a visited)"
proof (induction h v visited rule: isCircular.induct)
  case (1 h a visited)
  show ?case
  proof (cases "a \<in> visited")
    case True
    then show ?thesis by (simp add: meets_visited)
  next
    case False
    let ?d = "insert a visited"
    have ih: "isCircular h c ?d = (\<exists>b. c = HRef b \<and> meets h b ?d)"
      if "c \<in> set (children h a)" for c
    proof (cases "h a")
      case (HArray vs)
      with that have "c \<in> set vs" by (simp add: children_def)
      then show ?thesis by (rule "1.IH"(1) [OF False refl HArray])
    next
      case (HObject kvs)
      with that have "c \<in> set (map snd kvs)" by (simp add: children_def)
      then show ?thesis by (rule "1.IH"(2) [OF False refl HObject])
    qed
    have step: "(\<exists>c \<in> set (children h a). isCircular h c ?d) =
        (\<exists>b. HRef b \<in> set (children h a) \<and> meets h b ?d)"
    proof
      assume "\<exists>c \<in> set (children h a). isCircular h c ?d"
      then obtain c where c: "c \<in> set (children h a)" and "isCircular h c ?d" by blast
      with ih [OF c] obtain b where "c = HRef b" "meets h b ?d" by blast
      with c show "\<exists>b. HRef b \<in> set (children h a) \<and> meets h b ?d" by blast
    next
      assume "\<exists>b. HRef b \<in> set (children h a) \<and> meets h b ?d"
      then obtain b where b: "HRef b \<in> set (children h a)" and m: "meets h b ?d" by blast
      from ih [OF b] m have "isCircular h (HRef b) ?d" by blast
      with b show "\<exists>c \<in> set (children h a). isCircular h c ?d" by blast
    qed
    have "isCircular h (HRef a) visited = (\<exists>c \<in> set (children h a). isCircular h c ?d)"
      unfolding isCircular_ref using False by blast
    also note step
    also have "(\<exists>b. HRef b \<in> set (children h a) \<and> meets h b ?d) = meets h a visited"
    proof
      assume "\<exists>b. HRef b \<in> set (children h a) \<and> meets h b ?d"
      then obtain b where "HRef b \<in> set (children h a)" "meets h b ?d" by blast
      then show "meets h a visited" by (rule meets_child)
    next
      assume "meets h a visited"
      then show "\<exists>b. HRef b \<in> set (children h a) \<and> meets h b ?d"
        using False by (rule meets_step)
    qed
    finally show ?thesis by simp
  qed
qed simp_all

lemma ref4_UNIV: "(UNIV :: ref4 set) = {ref_root, ref_a, ref_b, ref_c}"
proof (rule set_eqI)
  fix x :: ref4
  show "x \<in> UNIV \<longleftrightarrow> x \<in> {ref_root, ref_a, ref_b, ref_c}"
    by (cases x) simp_all
qed

lemma isCircular_appears_twice: "isCircular h v {} = appears_twice h v"
  unfolding isCircular_meets appears_twice_def meets_def by auto

lemma self_heap_circular: "isCircular self_heap (HRef ref_a) {}"
  by simp

lemma shared_heap_acyclic: "\<not> isCircular shared_heap (HRef ref_root) {}"
  by simp

lemma less_imp_Suc: "(c::nat) < n \<Longrightarrow> \<exists>m. n = Suc m"
  by (cases n) auto

lemma first_circular_total:
  "(\<And>c. c \<in> set cs \<Longrightarrow> g c = Some (f c)) \<Longrightarrow> first_circular g cs = Some (list_ex f cs)"
  by (induction cs) (auto split: bool.splits)

lemma visited_grows:
  fixes a :: "'a::finite"
  assumes "a \<notin> visited"
  shows "card (- insert a visited) < card (- visited)"
proof -
  from assms have "- insert a visited \<subset> - visited" by auto
  then show ?thesis by (simp add: psubset_card_mono)
qed

lemma isCircular_depth_enough:
  "card (- visited) < n \<Longrightarrow> isCircular_depth n h v visited = Some (isCircular h v visited)"
proof (induction h v visited arbitrary: n rule: isCircular.induct)
  case (1 h a visited)
  from "1.prems" obtain n' where n: "n = Suc n'" by (cases n) auto
  show ?case
  proof (cases "a \<in> visited")
    case True
    then show ?thesis by (simp add: n)
  next
    case False
    from visited_grows [OF False] "1.prems" n
    have less: "card (- insert a visited) < n'" by simp
    show ?thesis
    proof (cases "h a")
      case (HArray vs)
      have "first_circular (\<lambda>c. isCircular_depth n' h c (insert a visited)) vs =
          Some (list_ex (\<lambda>c. isCircular h c (insert a visited)) vs)"
        by (rule first_circular_total) (rule "1.IH"(1) [OF False refl HArray _ less])
      with False HArray show ?thesis by (simp add: n)
    next
      case (HObject kvs)
      have "first_circular (\<lambda>c. isCircular_depth n' h c (insert a visited)) (map snd kvs) =
          Some (list_ex (\<lambda>c. isCircular h c (insert a visited)) (map snd kvs))"
        by (rule first_circular_total) (rule "1.IH"(2) [OF False refl HObject _ less])
      with False HObject show ?thesis by (simp add: n)
    qed
  qed
qed (auto dest!: less_imp_Suc)

lemma card_ref4: "card (UNIV :: ref4 set) = 4"
  by (subst ref4_UNIV) simp

text \<open>
  C1. \<open>NotCircular\<close> classifies by the re-occurrence of an object on one path: for every
  input in whose object graph some object appears twice on a path from the root (as a
  mapping that holds itself) the validation fails with the fatal issue, and for every
  other input (as a root whose two sibling branches hold the same third mapping, which
  refers to nothing) it succeeds with the input as it was.
\<close>

theorem NotCircular_classifies:
  "NotCircular h v =
     (if appears_twice h v then
        Failure [\<lparr>path = [], code = custom,
                  message = ''values cannot be circular data structures'', fatal = True\<rparr>]
      else Success v)
   \<and> appears_twice self_heap (HRef ref_a)
   \<and> NotCircular self_heap (HRef ref_a) =
        Failure [\<lparr>path = [], code = custom,
                  message = ''values cannot be circular data structures'', fatal = True\<rparr>]
   \<and> \<not> appears_twice shared_heap (HRef ref_root)
   \<and> NotCircular shared_heap (HRef ref_root) = Success (HRef ref_root)"
  using self_heap_circular shared_heap_acyclic
  unfolding NotCircular_def isCircular_appears_twice addIssue_def
  by simp

text \<open>
  C10. \<open>isCircular\<close> returns on every finite graph, cyclic or not. With a bound on the
  recursion depth, a bound above the number of objects not yet visited is enough for the
  walk to return, and it returns what \<open>isCircular\<close> computes; the visited set grows by
  the current object before each descent, so that number falls; from the empty set the
  number of objects plus one is enough. So \<open>NotCircular.validate\<close> has a result on every
  input: the input, or one fatal issue.
\<close>

theorem isCircular_terminates:
  fixes h :: "'a::finite \<Rightarrow> 'a hobj"
  shows "(card (- visited) < n \<longrightarrow> isCircular_depth n h v visited = Some (isCircular h v visited))
   \<and> (a \<notin> visited \<longrightarrow> card (- insert a visited) < card (- visited))
   \<and> isCircular_depth (Suc (card (UNIV :: 'a set))) h v {} = Some (isCircular h v {})
   \<and> (\<exists>r. NotCircular h v = r \<and> (r = Success v \<or> (\<exists>i. r = Failure [i] \<and> fatal i)))"
proof (intro conjI impI)
  show "isCircular_depth n h v visited = Some (isCircular h v visited)" if "card (- visited) < n"
    using that by (rule isCircular_depth_enough)
  show "card (- insert a visited) < card (- visited)" if "a \<notin> visited"
    using that by (rule visited_grows)
  show "isCircular_depth (Suc (card (UNIV :: 'a set))) h v {} = Some (isCircular h v {})"
    by (rule isCircular_depth_enough) simp
  show "\<exists>r. NotCircular h v = r \<and> (r = Success v \<or> (\<exists>i. r = Failure [i] \<and> fatal i))"
    by (simp add: NotCircular_def addIssue_def)
qed

theorem isCircular_terminates_witness:
  "card (- {} :: ref4 set) < 5
   \<and> isCircular_depth 5 shared_heap (HRef ref_root) {} = Some False
   \<and> ref_a \<notin> {ref_root}
   \<and> card (- insert ref_a {ref_root}) < card (- {ref_root})
   \<and> isCircular_depth 5 self_heap (HRef ref_a) {} = Some True"
proof -
  have c: "card (- {} :: ref4 set) < 5"
    by (simp add: card_ref4)
  have r: "ref_a \<notin> {ref_root}" by simp
  note t = isCircular_terminates [where visited = "{}" and n = 5, THEN conjunct1, rule_format, OF c]
  note g = isCircular_terminates [where visited = "{ref_root}" and a = ref_a and h = self_heap
      and v = HNull and n = 0, THEN conjunct2, THEN conjunct1, rule_format, OF r]
  have s: "isCircular_depth 5 shared_heap (HRef ref_root) {} = Some False"
    unfolding t [of shared_heap "HRef ref_root"] by simp
  have l: "isCircular_depth 5 self_heap (HRef ref_a) {} = Some True"
    unfolding t [of self_heap "HRef ref_a"] by simp
  from c s r g l show ?thesis by (intro conjI)
qed

end
